theory Spec2Isabelle
  imports Complex_Main "HOL-Library.Multiset" "HOL-Library.Log_Nat"
begin

section \<open>JavaScript values used by the schema module\<close>

text \<open>
  A JavaScript \<open>number\<close> is an IEEE double: a finite value, one of the two infinities, or
  NaN. Every finite double is a rational number, so \<open>Num\<close> ranges over the rationals (a
  superset of the finite doubles; \<open>-0\<close> and \<open>0\<close> are not told apart, as no operation
  below distinguishes them). Comparison, strict equality and \<open>Number.isInteger\<close> are
  exact; subtraction rounds its result to a double.
\<close>

datatype jsnum = Num rat | NaN | PosInf | NegInf

text \<open>\<open>a <= b\<close> on numbers: false as soon as one side is NaN.\<close>

fun js_le :: "jsnum \<Rightarrow> jsnum \<Rightarrow> bool" where
  "js_le (Num a) (Num b) = (a \<le> b)"
| "js_le NaN _ = False"
| "js_le _ NaN = False"
| "js_le NegInf _ = True"
| "js_le _ PosInf = True"
| "js_le _ _ = False"

text \<open>\<open>a >= b\<close> on numbers.\<close>

definition js_ge :: "jsnum \<Rightarrow> jsnum \<Rightarrow> bool" where
  "js_ge a b = js_le b a"

text \<open>\<open>a === b\<close> on numbers: NaN is not equal to itself.\<close>

definition js_strict_eq :: "jsnum \<Rightarrow> jsnum \<Rightarrow> bool" where
  "js_strict_eq a b = (a = b \<and> a \<noteq> NaN)"

text \<open>\<open>Number.isInteger\<close>: finite and without fractional part.\<close>

fun Number_isInteger :: "jsnum \<Rightarrow> bool" where
  "Number_isInteger (Num r) = (of_int \<lfloor>r\<rfloor> = r)"
| "Number_isInteger _ = False"

text \<open>\<open>a < b\<close> on numbers: false as soon as one side is NaN.\<close>

fun js_lt :: "jsnum \<Rightarrow> jsnum \<Rightarrow> bool" where
  "js_lt (Num a) (Num b) = (a < b)"
| "js_lt NaN _ = False"
| "js_lt _ NaN = False"
| "js_lt PosInf _ = False"
| "js_lt _ NegInf = False"
| "js_lt _ _ = True"

subsection \<open>Subtraction of doubles\<close>

text \<open>
  \<open>a - b\<close> on numbers is the exact difference rounded to the nearest double, ties to the
  even significand (the only rounding mode of JavaScript). A finite double is
  \<open>m * 2^q\<close> with an integer \<open>m\<close> of at most 53 bits and \<open>-1074 \<le> q \<le> 971\<close>.
\<close>

definition is_double :: "rat \<Rightarrow> bool" where
  "is_double r =
     (\<exists>m q :: int. \<bar>m\<bar> < 2 ^ 53 \<and> - 1074 \<le> q \<and> q \<le> 971 \<and> r = of_int m * 2 powi q)"

text \<open>
  The binary exponent of a positive rational \<open>x\<close>, that is the \<open>e\<close> with
  \<open>2^e \<le> x < 2^(e+1)\<close>: the bit lengths of numerator and denominator give it up to one.
\<close>

definition ilog2 :: "rat \<Rightarrow> int" where
  "ilog2 x =
     (let (n, d) = quotient_of x;
          k = bitlen n - bitlen d
      in if 2 powi k \<le> x then k else k - 1)"

text \<open>The nearest integer, a tie going to the even one.\<close>

definition round_half_even :: "rat \<Rightarrow> int" where
  "round_half_even x =
     (let f = \<lfloor>x\<rfloor>;
          r = x - of_int f
      in if r < 1 / 2 then f
         else if 1 / 2 < r then f + 1
         else if even f then f else f + 1)"

text \<open>
  Rounding to binary64. With \<open>e\<close> the binary exponent of \<open>\<bar>x\<bar>\<close>, the spacing of the doubles
  around \<open>x\<close> is \<open>2^q\<close> for \<open>q = max (e - 52) (-1074)\<close> (the lower bound is the spacing of
  the subnormal numbers); \<open>\<bar>x\<bar>\<close> is rounded to a multiple of it, and a result that reaches
  \<open>2^1024\<close> overflows to an infinity.
\<close>

definition round_double :: "rat \<Rightarrow> jsnum" where
  "round_double x =
     (if x = 0 then Num 0
      else
        (let q = max (ilog2 \<bar>x\<bar> - 52) (- 1074);
             n = round_half_even (\<bar>x\<bar> / 2 powi q);
             y = of_int n * 2 powi q
         in if 2 powi 1024 \<le> y then (if 0 < x then PosInf else NegInf)
            else Num (if 0 < x then y else - y)))"

text \<open>
  \<open>a - b\<close> on numbers: NaN when an operand is NaN or when two infinities of the same
  sign are subtracted; an infinity absorbs a finite operand.
\<close>

fun js_sub :: "jsnum \<Rightarrow> jsnum \<Rightarrow> jsnum" where
  "js_sub (Num a) (Num b) = round_double (a - b)"
| "js_sub NaN _ = NaN"
| "js_sub _ NaN = NaN"
| "js_sub PosInf PosInf = NaN"
| "js_sub NegInf NegInf = NaN"
| "js_sub PosInf _ = PosInf"
| "js_sub NegInf _ = NegInf"
| "js_sub (Num a) PosInf = NegInf"
| "js_sub (Num a) NegInf = PosInf"

subsection \<open>Arrays and nullable fields\<close>

text \<open>\<open>Array.prototype.includes\<close> on an array of strings or enum members.\<close>

definition array_includes :: "'a list \<Rightarrow> 'a \<Rightarrow> bool" where
  "array_includes xs x = List.member xs x"

text \<open>A field of type \<open>T | null\<close>.\<close>

datatype 'a nullable = Null | Val 'a

section \<open>Enumerations\<close>

datatype TimeWindow = EARLY_MORNING | MORNING | AFTERNOON | EVENING | NIGHT | ANY

fun TimeWindow_value :: "TimeWindow \<Rightarrow> string" where
  "TimeWindow_value EARLY_MORNING = ''EARLY_MORNING''"
| "TimeWindow_value MORNING = ''MORNING''"
| "TimeWindow_value AFTERNOON = ''AFTERNOON''"
| "TimeWindow_value EVENING = ''EVENING''"
| "TimeWindow_value NIGHT = ''NIGHT''"
| "TimeWindow_value ANY = ''ANY''"

text \<open>\<open>Object.values(TimeWindow)\<close>, in declaration order.\<close>

definition TimeWindow_values :: "string list" where
  "TimeWindow_values =
     map TimeWindow_value [EARLY_MORNING, MORNING, AFTERNOON, EVENING, NIGHT, ANY]"

datatype QualityRating = FAIL | HARD | GOOD | EASY

fun QualityRating_value :: "QualityRating \<Rightarrow> jsnum" where
  "QualityRating_value FAIL = Num 0"
| "QualityRating_value HARD = Num 1"
| "QualityRating_value GOOD = Num 2"
| "QualityRating_value EASY = Num 3"

datatype IntegrationMethod = EULER | RK4

fun IntegrationMethod_value :: "IntegrationMethod \<Rightarrow> string" where
  "IntegrationMethod_value EULER = ''Euler''"
| "IntegrationMethod_value RK4 = ''RK4''"

datatype NotificationChannel = EMAIL | PUSH | IN_APP

fun NotificationChannel_value :: "NotificationChannel \<Rightarrow> string" where
  "NotificationChannel_value EMAIL = ''email''"
| "NotificationChannel_value PUSH = ''push''"
| "NotificationChannel_value IN_APP = ''in-app''"

text \<open>\<open>Object.values(NotificationChannel)\<close>, in declaration order.\<close>

definition NotificationChannel_values :: "string list" where
  "NotificationChannel_values = map NotificationChannel_value [EMAIL, PUSH, IN_APP]"

datatype DayOfWeek = SUNDAY | MONDAY | TUESDAY | WEDNESDAY | THURSDAY | FRIDAY | SATURDAY

fun DayOfWeek_value :: "DayOfWeek \<Rightarrow> jsnum" where
  "DayOfWeek_value SUNDAY = Num 0"
| "DayOfWeek_value MONDAY = Num 1"
| "DayOfWeek_value TUESDAY = Num 2"
| "DayOfWeek_value WEDNESDAY = Num 3"
| "DayOfWeek_value THURSDAY = Num 4"
| "DayOfWeek_value FRIDAY = Num 5"
| "DayOfWeek_value SATURDAY = Num 6"

section \<open>Type guards\<close>

definition isTimeWindow :: "string \<Rightarrow> bool" where
  "isTimeWindow v = array_includes TimeWindow_values v"

definition isQualityRating :: "jsnum \<Rightarrow> bool" where
  "isQualityRating v = (js_ge v (Num 0) \<and> js_le v (Num 3) \<and> Number_isInteger v)"

definition isIntegrationMethod :: "string \<Rightarrow> bool" where
  "isIntegrationMethod v = (v = ''Euler'' \<or> v = ''RK4'')"

definition isNotificationChannel :: "string \<Rightarrow> bool" where
  "isNotificationChannel v = array_includes NotificationChannel_values v"

definition isDayOfWeek :: "jsnum \<Rightarrow> bool" where
  "isDayOfWeek v = (js_ge v (Num 0) \<and> js_le v (Num 6) \<and> Number_isInteger v)"

section \<open>Check-ins\<close>

text \<open>
  The interface \<open>CheckIn\<close>: \<open>success\<close> is a boolean and \<open>qualityRating\<close> is a
  \<open>QualityRating\<close> or \<open>null\<close> (\<open>None\<close> here).
\<close>

record CheckIn =
  checkInID :: string
  habitID :: string
  date :: string
  success :: bool
  qualityRating :: "QualityRating option"
  timestamp :: string

text \<open>
  \<open>Partial<CheckIn>\<close>, the parameter type of \<open>validateCheckIn\<close>: every field may be
  absent (\<open>undefined\<close>, \<open>None\<close> here). At run time the quality rating is then
  \<open>undefined\<close>, \<open>null\<close> or a number.
\<close>

record PartialCheckIn =
  checkInID :: "string option"
  habitID :: "string option"
  date :: "string option"
  success :: "bool option"
  qualityRating :: "jsnum nullable option"
  timestamp :: "string option"

text \<open>A \<open>CheckIn\<close> passed where a \<open>Partial<CheckIn>\<close> is expected: all fields present.\<close>

definition asPartial :: "CheckIn \<Rightarrow> PartialCheckIn" where
  "asPartial c =
     \<lparr> checkInID = Some (CheckIn.checkInID c),
       habitID = Some (CheckIn.habitID c),
       date = Some (CheckIn.date c),
       success = Some (CheckIn.success c),
       qualityRating =
         Some (case CheckIn.qualityRating c of None \<Rightarrow> Null | Some q \<Rightarrow> Val (QualityRating_value q)),
       timestamp = Some (CheckIn.timestamp c) \<rparr>"

text \<open>\<open>typeof v === "number"\<close> for the value of the \<open>qualityRating\<close> field.\<close>

fun typeof_number :: "jsnum nullable option \<Rightarrow> bool" where
  "typeof_number (Some (Val q)) = True"
| "typeof_number _ = False"

text \<open>\<open>v === n\<close> for the value of the \<open>qualityRating\<close> field and a number \<open>n\<close>.\<close>

fun field_strict_eq :: "jsnum nullable option \<Rightarrow> jsnum \<Rightarrow> bool" where
  "field_strict_eq (Some (Val q)) n = js_strict_eq q n"
| "field_strict_eq _ n = False"

definition validateCheckIn :: "PartialCheckIn \<Rightarrow> bool" where
  "validateCheckIn checkIn =
     (if success checkIn = Some False then
        (qualityRating checkIn = Some Null \<or>
         field_strict_eq (qualityRating checkIn) (QualityRating_value FAIL))
      else if success checkIn = Some True \<and> typeof_number (qualityRating checkIn) then
        (case qualityRating checkIn of
           Some (Val q) \<Rightarrow> js_ge q (Num 1) \<and> js_le q (Num 3)
         | _ \<Rightarrow> False)
      else False)"

section \<open>Time-window normalisation\<close>

text \<open>
  A JavaScript \<open>Set\<close> iterates in insertion order, and adding a value that is already
  present leaves it unchanged. The set is modelled by the list of its elements in
  insertion order; \<open>new Set(xs)\<close> adds the elements of \<open>xs\<close> from left to right, and
  \<open>Array.from\<close> reads that list off.
\<close>

definition Set_add :: "'a list \<Rightarrow> 'a \<Rightarrow> 'a list" where
  "Set_add s x = (if List.member s x then s else s @ [x])"

definition new_Set :: "'a list \<Rightarrow> 'a list" where
  "new_Set xs = foldl Set_add [] xs"

definition Array_from :: "'a list \<Rightarrow> 'a list" where
  "Array_from s = s"

definition validateTimeWindow :: "TimeWindow list \<Rightarrow> TimeWindow list" where
  "validateTimeWindow windows =
     (if length windows = 0 then [ANY]
      else
        (let unique = Array_from (new_Set windows)
         in if array_includes unique ANY then [ANY] else unique))"

section \<open>Habits and scheduled slots\<close>

text \<open>
  Every field of type \<open>number\<close> is a double: the ranges and the multiples that the comments
  of the source give are documentation, and a validator receives whatever number its
  caller passes.
\<close>

record Habit =
  habitID :: string
  userID :: string
  name :: string
  duration :: jsnum
  priority :: jsnum
  difficulty :: jsnum
  preferredTimeWindows :: "TimeWindow list"
  easinessFactor :: jsnum
  interval :: jsnum
  repetitions :: jsnum
  streak :: jsnum
  createdDate :: string

record ScheduledSlot =
  slotID :: string
  scheduleID :: string
  habitID :: string
  startTime :: jsnum
  endTime :: jsnum

definition validateSlotDuration :: "ScheduledSlot \<Rightarrow> Habit \<Rightarrow> bool" where
  "validateSlotDuration slot habit =
     js_strict_eq (js_sub (endTime slot) (startTime slot)) (duration habit)"

text \<open>
  The inner loop of \<open>validateNoSlotOverlap\<close>, from index \<open>j\<close> on, for a fixed \<open>i\<close>:
  \<open>False\<close> when it reaches the early \<open>return false\<close>, \<open>True\<close> when it runs to the end.
  The outer loop enters it with \<open>i < length slots\<close> and \<open>j = i + 1\<close>, so both array
  reads are within range whenever they are made.
\<close>

function overlap_inner :: "ScheduledSlot list \<Rightarrow> nat \<Rightarrow> nat \<Rightarrow> bool" where
  "overlap_inner slots i j =
     (if j < length slots then
        (let s1 = slots ! i;
             s2 = slots ! j;
             noOverlap =
               (js_le (endTime s1) (startTime s2) \<or> js_le (endTime s2) (startTime s1))
         in if \<not> noOverlap then False else overlap_inner slots i (j + 1))
      else True)"
  by pat_completeness auto
termination
  by (relation "measure (\<lambda>(slots, i, j). length slots - j)") auto

declare overlap_inner.simps [simp del]

text \<open>The outer loop, from index \<open>i\<close> on; the inner loop starts at \<open>i + 1\<close>.\<close>

function overlap_outer :: "ScheduledSlot list \<Rightarrow> nat \<Rightarrow> bool" where
  "overlap_outer slots i =
     (if i < length slots then
        (if overlap_inner slots i (i + 1) then overlap_outer slots (i + 1) else False)
      else True)"
  by pat_completeness auto
termination
  by (relation "measure (\<lambda>(slots, i). length slots - i)") auto

declare overlap_outer.simps [simp del]

definition validateNoSlotOverlap :: "ScheduledSlot list \<Rightarrow> bool" where
  "validateNoSlotOverlap slots = overlap_outer slots 0"

text \<open>
  The half-open interval \<open>[startTime, endTime)\<close> of a slot, as the set of the finite times
  \<open>t\<close> with \<open>startTime \<le> t < endTime\<close>. It is empty when an end is NaN.
\<close>

definition slot_interval :: "ScheduledSlot \<Rightarrow> rat set" where
  "slot_interval s = {t. js_le (startTime s) (Num t) \<and> js_lt (Num t) (endTime s)}"

text \<open>A slot with just the two times, the identifiers left empty.\<close>

definition mk_slot :: "rat \<Rightarrow> rat \<Rightarrow> ScheduledSlot" where
  "mk_slot a b =
     \<lparr> slotID = [], scheduleID = [], habitID = [], startTime = Num a, endTime = Num b \<rparr>"

text \<open>
  A schedule of \<open>n\<close> five-minute slots, one at the start of every quarter of an hour from
  midnight on: \<open>[0,5)\<close>, \<open>[15,20)\<close>, \<open>[30,35)\<close> and so on. Up to \<open>n = 96\<close> it fits into one
  day.
\<close>

definition spaced_slots :: "nat \<Rightarrow> ScheduledSlot list" where
  "spaced_slots n = map (\<lambda>i. mk_slot (15 * of_nat i) (15 * of_nat i + 5)) [0..<n]"

text \<open>A slot lies within the day and starts on a quarter of an hour, as documented.\<close>

definition within_day :: "ScheduledSlot \<Rightarrow> bool" where
  "within_day s =
     (case (startTime s, endTime s) of
        (Num a, Num b) \<Rightarrow> 0 \<le> a \<and> b \<le> 1439 \<and> a \<in> \<int> \<and> b \<in> \<int> \<and> \<lfloor>a\<rfloor> mod 15 = 0
      | _ \<Rightarrow> False)"

text \<open>A habit of five minutes, within every documented bound of \<open>Habit\<close>.\<close>

definition five_minute_habit :: Habit where
  "five_minute_habit =
     \<lparr> Habit.habitID = [], userID = [], name = ''stretch'', duration = Num 5, priority = Num 3,
       difficulty = Num 1, preferredTimeWindows = [ANY], easinessFactor = Num 2.5,
       interval = Num 1, repetitions = Num 0, streak = Num 0, createdDate = ''2024-01-01'' \<rparr>"

section \<open>User preferences\<close>

record SchedulingPreferences =
  dailyStartTime :: string
  dailyEndTime :: string
  timeSlotGranularity :: jsnum

record PredictionPreferences =
  coldStartThreshold :: jsnum
  recentWindowSize :: jsnum
  riskThreshold :: jsnum

record AdaptiveFrequencyPreferences =
  enableSM2 :: bool
  minInterval :: jsnum
  maxInterval :: jsnum

record SimulationPreferences =
  enabled :: bool
  integrationMethod :: IntegrationMethod
  timeStep :: jsnum

record NotificationPreferences =
  enableInterventionAlerts :: bool
  alertThreshold :: jsnum
  channels :: "NotificationChannel list"

text \<open>
  The five groups of \<open>UserPreferences\<close>. The interface also admits additional properties
  under arbitrary keys; the default table has none.
\<close>

record UserPreferences =
  scheduling :: SchedulingPreferences
  prediction :: PredictionPreferences
  adaptiveFrequency :: AdaptiveFrequencyPreferences
  simulation :: SimulationPreferences
  notifications :: NotificationPreferences

text \<open>The decimal literals \<open>0.8\<close> and \<open>0.05\<close> stand for the numbers the source writes.\<close>

definition DEFAULT_USER_PREFERENCES :: UserPreferences where
  "DEFAULT_USER_PREFERENCES =
     \<lparr> scheduling =
         \<lparr> dailyStartTime = ''06:00'',
           dailyEndTime = ''23:00'',
           timeSlotGranularity = Num 15 \<rparr>,
       prediction =
         \<lparr> coldStartThreshold = Num 7,
           recentWindowSize = Num 7,
           riskThreshold = Num 0.8 \<rparr>,
       adaptiveFrequency =
         \<lparr> enableSM2 = True,
           minInterval = Num 1,
           maxInterval = Num 90 \<rparr>,
       simulation =
         \<lparr> enabled = False,
           integrationMethod = EULER,
           timeStep = Num 0.05 \<rparr>,
       notifications =
         \<lparr> enableInterventionAlerts = True,
           alertThreshold = Num 0.8,
           channels = [IN_APP] \<rparr> \<rparr>"

section \<open>Properties of the check-in validator\<close>

lemma validateCheckIn_asPartial:
  "validateCheckIn (asPartial c) =
     (case CheckIn.qualityRating c of
        None \<Rightarrow> \<not> CheckIn.success c
      | Some q \<Rightarrow> (if CheckIn.success c then q \<noteq> FAIL else q = FAIL))"
proof (cases "CheckIn.qualityRating c")
  case None
  then show ?thesis
    by (simp add: validateCheckIn_def asPartial_def)
next
  case (Some q)
  then show ?thesis
    by (cases q; cases "CheckIn.success c")
       (simp_all add: validateCheckIn_def asPartial_def js_strict_eq_def js_ge_def)
qed

text \<open>
  C1. For every \<open>CheckIn\<close> (a boolean \<open>success\<close>, a \<open>qualityRating\<close> that is a
  \<open>QualityRating\<close> or \<open>null\<close>), \<open>validateCheckIn\<close> returns true exactly when the
  check-in failed with quality \<open>null\<close> or \<open>FAIL\<close>, or succeeded with quality \<open>HARD\<close>,
  \<open>GOOD\<close> or \<open>EASY\<close>. In particular a failed check-in with \<open>null\<close> quality is valid, a
  successful one with \<open>null\<close> quality is not, and a successful one rated \<open>GOOD\<close> is.
\<close>

theorem validateCheckIn_iff:
  "validateCheckIn (asPartial c) =
     ((CheckIn.success c = False \<and> CheckIn.qualityRating c \<in> {None, Some FAIL}) \<or>
      (CheckIn.success c = True \<and> CheckIn.qualityRating c \<in> {Some HARD, Some GOOD, Some EASY})) \<and>
   validateCheckIn (asPartial (c\<lparr>CheckIn.success := False, CheckIn.qualityRating := None\<rparr>)) = True \<and>
   validateCheckIn (asPartial (c\<lparr>CheckIn.success := True, CheckIn.qualityRating := None\<rparr>)) = False \<and>
   validateCheckIn (asPartial (c\<lparr>CheckIn.success := True, CheckIn.qualityRating := Some GOOD\<rparr>)) = True"
proof -
  have "validateCheckIn (asPartial c) =
     ((CheckIn.success c = False \<and> CheckIn.qualityRating c \<in> {None, Some FAIL}) \<or>
      (CheckIn.success c = True \<and> CheckIn.qualityRating c \<in> {Some HARD, Some GOOD, Some EASY}))"
  proof (cases "CheckIn.qualityRating c")
    case None
    then show ?thesis by (simp add: validateCheckIn_asPartial)
  next
    case (Some q)
    then show ?thesis by (cases q) (simp_all add: validateCheckIn_asPartial)
  qed
  then show ?thesis
    by (simp add: validateCheckIn_asPartial)
qed

text \<open>
  C10. A check-in object whose \<open>success\<close> field is absent is rejected whatever its other
  fields are, and so is a failed check-in whose \<open>qualityRating\<close> field is absent
  (\<open>undefined\<close>, not \<open>null\<close>): the failed branch accepts \<open>null\<close> and \<open>FAIL\<close> only, by
  strict equality.
\<close>

theorem validateCheckIn_absent_fields:
  "validateCheckIn (p\<lparr>success := None\<rparr>) = False \<and>
   validateCheckIn (p\<lparr>success := Some False, qualityRating := None\<rparr>) = False"
  by (simp add: validateCheckIn_def)

section \<open>Properties of the subtraction of doubles\<close>

text \<open>The bit length of a positive integer brackets it between two powers of two.\<close>

lemma bitlen_powi_bounds:
  assumes "0 < n"
  shows "(2::rat) powi (bitlen n - 1) \<le> of_int n" and "(of_int n :: rat) < 2 powi (bitlen n)"
proof -
  from assms have b: "2 ^ nat (bitlen n - 1) \<le> n" "n < 2 ^ nat (bitlen n)"
    using bitlen_bounds [of n] by blast+
  from assms have pos: "1 \<le> bitlen n"
    by (simp add: bitlen_alt_def)
  from b(1) have "(of_int (2 ^ nat (bitlen n - 1)) :: rat) \<le> of_int n"
    by (simp only: of_int_le_iff)
  with pos show "(2::rat) powi (bitlen n - 1) \<le> of_int n"
    by (simp add: power_int_def)
  from b(2) have "(of_int n :: rat) < of_int (2 ^ nat (bitlen n))"
    by (simp only: of_int_less_iff)
  with pos show "(of_int n :: rat) < 2 powi (bitlen n)"
    by (simp add: power_int_def)
qed

text \<open>\<open>ilog2\<close> is the binary exponent: \<open>2^(ilog2 x) \<le> x < 2^(ilog2 x + 1)\<close>, and it is the only such integer.\<close>

lemma ilog2_bounds:
  assumes "0 < x"
  shows "2 powi (ilog2 x) \<le> x" and "x < 2 powi (ilog2 x + 1)"
proof -
  obtain n d where q: "quotient_of x = (n, d)"
    by (cases "quotient_of x")
  then have d: "0 < d" and x: "x = of_int n / of_int d"
    by (rule quotient_of_denom_pos, rule quotient_of_div)
  with assms have n: "0 < n"
    by (simp add: zero_less_divide_iff)
  define k where "k = bitlen n - bitlen d"
  define N D :: rat where "N = of_int n" and "D = of_int d"
  have D: "0 < D" using d by (simp add: D_def)
  have xND: "x = N / D" by (simp add: x N_def D_def)
  have nb: "2 powi (bitlen n - 1) \<le> N" "N < 2 powi (bitlen n)"
    unfolding N_def using bitlen_powi_bounds [OF n] by blast+
  have db: "2 powi (bitlen d - 1) \<le> D" "D < 2 powi (bitlen d)"
    unfolding D_def using bitlen_powi_bounds [OF d] by blast+
  have low: "2 powi (k - 1) \<le> x"
  proof -
    have "2 powi (k - 1) * D \<le> 2 powi (k - 1) * (2::rat) powi (bitlen d)"
      using db(2) by (intro mult_left_mono) simp_all
    also have "\<dots> = 2 powi (bitlen n - 1)"
      by (simp add: k_def flip: power_int_add)
    also have "\<dots> \<le> N" by (rule nb(1))
    finally show ?thesis
      using D by (simp add: xND pos_le_divide_eq)
  qed
  have up: "x < 2 powi (k + 1)"
  proof -
    have "N < 2 powi (bitlen n)" by (rule nb(2))
    also have "\<dots> = 2 powi (k + 1) * (2::rat) powi (bitlen d - 1)"
      by (simp add: k_def flip: power_int_add)
    also have "\<dots> \<le> 2 powi (k + 1) * D"
      using db(1) by (intro mult_left_mono) simp_all
    finally show ?thesis
      using D by (simp add: xND pos_divide_less_eq)
  qed
  have il: "ilog2 x = (if 2 powi k \<le> x then k else k - 1)"
    by (simp add: ilog2_def q k_def Let_def)
  show "2 powi (ilog2 x) \<le> x"
    using low by (simp add: il)
  show "x < 2 powi (ilog2 x + 1)"
    using up by (simp add: il not_le)
qed

lemma ilog2_less:
  assumes "0 < x" and "x < 2 powi j"
  shows "ilog2 x < j"
proof (rule ccontr)
  assume "\<not> ilog2 x < j"
  then have "j \<le> ilog2 x" by simp
  then have "(2::rat) powi j \<le> 2 powi (ilog2 x)"
    by (intro power_int_increasing) simp_all
  also have "\<dots> \<le> x" by (rule ilog2_bounds(1) [OF assms(1)])
  finally show False using assms(2) by simp
qed

lemma ilog2_eqI:
  assumes "2 powi e \<le> x" and "x < 2 powi (e + 1)"
  shows "ilog2 x = e"
proof -
  have "(0::rat) < 2 powi e" by simp
  with assms(1) have pos: "0 < x" by linarith
  from ilog2_less [OF pos assms(2)] have "ilog2 x \<le> e" by simp
  moreover have "e < ilog2 x + 1"
  proof (rule ccontr)
    assume "\<not> e < ilog2 x + 1"
    then have "ilog2 x + 1 \<le> e" by simp
    then have "(2::rat) powi (ilog2 x + 1) \<le> 2 powi e"
      by (intro power_int_increasing) simp_all
    with ilog2_bounds(2) [OF pos] assms(1) show False by linarith
  qed
  ultimately show ?thesis by simp
qed

lemma round_half_even_of_int: "round_half_even (of_int k) = k"
  by (simp add: round_half_even_def)


text \<open>Rounding leaves every double as it is, so a difference that is a double is computed exactly.\<close>

lemma round_double_exact:
  assumes "is_double r"
  shows "round_double r = Num r"
proof (cases "r = 0")
  case True
  then show ?thesis by (simp add: round_double_def)
next
  case False
  from assms obtain m q :: int where
    m: "\<bar>m\<bar> < 2 ^ 53" and q: "- 1074 \<le> q" "q \<le> 971" and r: "r = of_int m * 2 powi q"
    unfolding is_double_def by blast
  define x where "x = \<bar>r\<bar>"
  have x: "x = of_int \<bar>m\<bar> * 2 powi q"
    by (simp add: x_def r abs_mult)
  from False have pos: "0 < x" by (simp add: x_def)
  from m have "(of_int \<bar>m\<bar> :: rat) < of_int (2 ^ 53)"
    by (simp only: of_int_less_iff)
  then have "x < 2 ^ 53 * 2 powi q"
    unfolding x by (intro mult_strict_right_mono) simp_all
  also have "\<dots> = 2 powi (53 + q)"
    by (simp add: power_int_add)
  finally have xlt: "x < 2 powi (53 + q)" .
  define q' where "q' = max (ilog2 x - 52) (- 1074)"
  have "ilog2 x < 53 + q" by (rule ilog2_less [OF pos xlt])
  with q have q': "q' \<le> q" by (simp add: q'_def)
  have "x / 2 powi q' = of_int \<bar>m\<bar> * 2 powi (q - q')"
    by (simp add: x power_int_diff)
  also have "\<dots> = of_int (\<bar>m\<bar> * 2 ^ nat (q - q'))"
    using q' by (simp add: power_int_def)
  finally have quot: "x / 2 powi q' = of_int (\<bar>m\<bar> * 2 ^ nat (q - q'))" .
  have n: "round_half_even (x / 2 powi q') = \<bar>m\<bar> * 2 ^ nat (q - q')"
    unfolding quot by (rule round_half_even_of_int)
  have y: "of_int (round_half_even (x / 2 powi q')) * 2 powi q' = x"
    unfolding n quot [symmetric] by simp
  have "(2::rat) powi (53 + q) \<le> 2 powi 1024"
    using q by (intro power_int_increasing) simp_all
  with xlt have fin: "\<not> 2 powi 1024 \<le> x" by simp
  have "round_double r = Num (if 0 < r then x else - x)"
    using False y fin by (simp add: round_double_def Let_def flip: x_def q'_def)
  also have "(if 0 < r then x else - x) = r"
    by (simp add: x_def)
  finally show ?thesis .
qed

text \<open>Every integer of magnitude at most \<open>2^53\<close> is a double.\<close>

lemma is_double_of_int:
  assumes "\<bar>k\<bar> \<le> 2 ^ 53"
  shows "is_double (of_int k)"
proof (cases "\<bar>k\<bar> < 2 ^ 53")
  case True
  then have "\<bar>k\<bar> < 2 ^ 53 \<and> - 1074 \<le> (0::int) \<and> (0::int) \<le> 971 \<and>
      (of_int k :: rat) = of_int k * 2 powi 0"
    by simp
  then show ?thesis
    unfolding is_double_def by blast
next
  case False
  with assms have "\<bar>k\<bar> = 2 ^ 53" by simp
  then consider "k = 2 ^ 53" | "k = - (2 ^ 53)" by (auto simp: abs_if split: if_splits)
  then show ?thesis
  proof cases
    case 1
    have "\<bar>2 ^ 52 :: int\<bar> < 2 ^ 53 \<and> - 1074 \<le> (1::int) \<and> (1::int) \<le> 971 \<and>
        (of_int k :: rat) = of_int (2 ^ 52) * 2 powi 1"
      by (simp add: 1)
    then show ?thesis unfolding is_double_def by blast
  next
    case 2
    have "\<bar>- (2 ^ 52) :: int\<bar> < 2 ^ 53 \<and> - 1074 \<le> (1::int) \<and> (1::int) \<le> 971 \<and>
        (of_int k :: rat) = of_int (- (2 ^ 52)) * 2 powi 1"
      by (simp add: 2)
    then show ?thesis unfolding is_double_def by blast
  qed
qed

section \<open>Properties of the overlap check\<close>

text \<open>The inner loop accepts exactly when slot \<open>i\<close> clears every slot from \<open>j\<close> on.\<close>

lemma overlap_inner_iff:
  "overlap_inner slots i j =
     (\<forall>k. j \<le> k \<and> k < length slots \<longrightarrow>
        js_le (endTime (slots ! i)) (startTime (slots ! k)) \<or> js_le (endTime (slots ! k)) (startTime (slots ! i)))"
proof (induction slots i j rule: overlap_inner.induct)
  case (1 slots i j)
  show ?case
  proof (cases "j < length slots")
    case False
    then show ?thesis by (auto simp: overlap_inner.simps [of slots i j])
  next
    case True
    let ?ok = "\<lambda>k. js_le (endTime (slots ! i)) (startTime (slots ! k)) \<or> js_le (endTime (slots ! k)) (startTime (slots ! i))"
    show ?thesis
    proof (cases "?ok j")
      case False
      with True show ?thesis
        by (subst overlap_inner.simps) (auto simp: Let_def)
    next
      case ok: True
      with True have "overlap_inner slots i j = overlap_inner slots i (j + 1)"
        by (subst overlap_inner.simps) (auto simp: Let_def)
      also have "\<dots> = (\<forall>k. j + 1 \<le> k \<and> k < length slots \<longrightarrow> ?ok k)"
        using "1.IH" [OF True refl refl refl] ok by simp
      also have "\<dots> = (\<forall>k. j \<le> k \<and> k < length slots \<longrightarrow> ?ok k)"
        using ok by (metis Suc_eq_plus1 Suc_leI le_neq_implies_less le_Suc_eq not_less_eq_eq)
      finally show ?thesis .
    qed
  qed
qed


lemma overlap_outer_iff:
  "overlap_outer slots i =
     (\<forall>a b. i \<le> a \<and> a < b \<and> b < length slots \<longrightarrow>
        js_le (endTime (slots ! a)) (startTime (slots ! b)) \<or> js_le (endTime (slots ! b)) (startTime (slots ! a)))"
proof (induction slots i rule: overlap_outer.induct)
  case (1 slots i)
  let ?ok = "\<lambda>a b. js_le (endTime (slots ! a)) (startTime (slots ! b)) \<or> js_le (endTime (slots ! b)) (startTime (slots ! a))"
  show ?case
  proof (cases "i < length slots")
    case False
    then show ?thesis by (auto simp: overlap_outer.simps [of slots i])
  next
    case True
    show ?thesis
    proof (cases "overlap_inner slots i (i + 1)")
      case False
      then obtain k where "i + 1 \<le> k" "k < length slots" "\<not> ?ok i k"
        unfolding overlap_inner_iff by blast
      then have "\<not> (\<forall>a b. i \<le> a \<and> a < b \<and> b < length slots \<longrightarrow> ?ok a b)"
        by (metis Suc_eq_plus1 Suc_le_lessD order_refl)
      moreover from True False have "\<not> overlap_outer slots i"
        by (simp add: overlap_outer.simps [of slots i])
      ultimately show ?thesis by blast
    next
      case inner: True
      then have row: "\<forall>k. i < k \<and> k < length slots \<longrightarrow> ?ok i k"
        unfolding overlap_inner_iff by (simp add: Suc_le_eq)
      from True inner have "overlap_outer slots i = overlap_outer slots (i + 1)"
        by (simp add: overlap_outer.simps [of slots i])
      also have "\<dots> = (\<forall>a b. i + 1 \<le> a \<and> a < b \<and> b < length slots \<longrightarrow> ?ok a b)"
        using "1.IH" [OF True inner] .
      also have "\<dots> = (\<forall>a b. i \<le> a \<and> a < b \<and> b < length slots \<longrightarrow> ?ok a b)"
        using row by (metis Suc_eq_plus1 Suc_leI le_neq_implies_less le_Suc_eq not_less_eq_eq)
      finally show ?thesis .
    qed
  qed
qed

lemma validateNoSlotOverlap_pairs:
  "validateNoSlotOverlap slots =
     (\<forall>a b. a < b \<and> b < length slots \<longrightarrow>
        js_le (endTime (slots ! a)) (startTime (slots ! b)) \<or> js_le (endTime (slots ! b)) (startTime (slots ! a)))"
  by (simp add: validateNoSlotOverlap_def overlap_outer_iff)

text \<open>A time common to two slots rules out that the first ends before the second starts.\<close>

lemma slot_interval_meet:
  assumes "t \<in> slot_interval s1" and "t \<in> slot_interval s2"
  shows "\<not> js_le (endTime s1) (startTime s2)"
proof -
  from assms have "js_lt (Num t) (endTime s1)" and "js_le (startTime s2) (Num t)"
    by (simp_all add: slot_interval_def)
  then show ?thesis
    by (cases "endTime s1"; cases "startTime s2") simp_all
qed

text \<open>
  Two non-empty intervals neither of which ends before the other starts share a time; the
  ends may be infinite.
\<close>

lemma interval_point:
  assumes "js_lt s1 e1" and "js_lt s2 e2"
    and "\<not> js_le e1 s2" and "\<not> js_le e2 s1"
  shows "\<exists>t. js_le s1 (Num t) \<and> js_lt (Num t) e1 \<and> js_le s2 (Num t) \<and> js_lt (Num t) e2"
proof -
  from assms(1) consider a1 where "s1 = Num a1" | "s1 = NegInf"
    by (cases s1; cases e1) simp_all
  then show ?thesis
  proof cases
    case 1
    from assms(2) consider a2 where "s2 = Num a2" | "s2 = NegInf"
      by (cases s2; cases e2) simp_all
    then show ?thesis
    proof cases
      case (1 a2)
      with \<open>s1 = Num a1\<close> assms show ?thesis
        by (intro exI [of _ "max a1 a2"]) (cases e1; cases e2; auto)
    next
      case 2
      with \<open>s1 = Num a1\<close> assms show ?thesis
        by (intro exI [of _ a1]) (cases e1; cases e2; auto)
    qed
  next
    case 2
    from assms(2) consider a2 where "s2 = Num a2" | "s2 = NegInf"
      by (cases s2; cases e2) simp_all
    then show ?thesis
    proof cases
      case (1 a2)
      with \<open>s1 = NegInf\<close> assms show ?thesis
        by (intro exI [of _ a2]) (cases e1; cases e2; auto)
    next
      case n2: 2
      from assms(1) \<open>s1 = NegInf\<close> consider b1 where "e1 = Num b1" | "e1 = PosInf"
        by (cases e1) simp_all
      then show ?thesis
      proof cases
        case (1 b1)
        from assms(2) n2 consider b2 where "e2 = Num b2" | "e2 = PosInf"
          by (cases e2) simp_all
        then show ?thesis
        proof cases
          case (1 b2)
          with \<open>e1 = Num b1\<close> \<open>s1 = NegInf\<close> n2 show ?thesis
            by (intro exI [of _ "min b1 b2 - 1"]) auto
        next
          case 2
          with \<open>e1 = Num b1\<close> \<open>s1 = NegInf\<close> n2 show ?thesis
            by (intro exI [of _ "b1 - 1"]) auto
        qed
      next
        case 2
        from assms(2) n2 consider b2 where "e2 = Num b2" | "e2 = PosInf"
          by (cases e2) simp_all
        then show ?thesis
        proof cases
          case (1 b2)
          with \<open>e1 = PosInf\<close> \<open>s1 = NegInf\<close> n2 show ?thesis
            by (intro exI [of _ "b2 - 1"]) auto
        next
          case 2
          with \<open>e1 = PosInf\<close> \<open>s1 = NegInf\<close> n2 show ?thesis
            by (intro exI [of _ 0]) auto
        qed
      qed
    qed
  qed
qed

lemma slot_interval_disjoint_iff:
  assumes "js_lt (startTime s1) (endTime s1)" and "js_lt (startTime s2) (endTime s2)"
  shows "(slot_interval s1 \<inter> slot_interval s2 = {}) =
           (js_le (endTime s1) (startTime s2) \<or> js_le (endTime s2) (startTime s1))"
proof
  assume empty: "slot_interval s1 \<inter> slot_interval s2 = {}"
  show "js_le (endTime s1) (startTime s2) \<or> js_le (endTime s2) (startTime s1)"
  proof (rule ccontr)
    assume "\<not> (js_le (endTime s1) (startTime s2) \<or> js_le (endTime s2) (startTime s1))"
    then have "\<not> js_le (endTime s1) (startTime s2)" "\<not> js_le (endTime s2) (startTime s1)"
      by simp_all
    from interval_point [OF assms this] obtain t where
      "t \<in> slot_interval s1" "t \<in> slot_interval s2"
      by (auto simp: slot_interval_def)
    with empty show False by blast
  qed
next
  assume no: "js_le (endTime s1) (startTime s2) \<or> js_le (endTime s2) (startTime s1)"
  show "slot_interval s1 \<inter> slot_interval s2 = {}"
  proof (rule ccontr)
    assume "slot_interval s1 \<inter> slot_interval s2 \<noteq> {}"
    then obtain t where "t \<in> slot_interval s1" "t \<in> slot_interval s2" by blast
    then have "\<not> js_le (endTime s1) (startTime s2)" "\<not> js_le (endTime s2) (startTime s1)"
      by (simp_all add: slot_interval_meet)
    with no show False by blast
  qed
qed

lemma validateNoSlotOverlap_two:
  "validateNoSlotOverlap [s, t] = (js_le (endTime s) (startTime t) \<or> js_le (endTime t) (startTime s))"
proof -
  have "(\<forall>a b. a < b \<and> b < length [s, t] \<longrightarrow> Q a b) = Q 0 1" for Q :: "nat \<Rightarrow> nat \<Rightarrow> bool"
  proof
    assume "\<forall>a b. a < b \<and> b < length [s, t] \<longrightarrow> Q a b"
    then show "Q 0 1" by simp
  next
    assume q: "Q 0 1"
    show "\<forall>a b. a < b \<and> b < length [s, t] \<longrightarrow> Q a b"
    proof (intro allI impI)
      fix a b :: nat
      assume "a < b \<and> b < length [s, t]"
      then have "a = 0 \<and> b = 1" by simp
      with q show "Q a b" by simp
    qed
  qed
  from this [of "\<lambda>a b. js_le (endTime ([s, t] ! a)) (startTime ([s, t] ! b)) \<or>
                       js_le (endTime ([s, t] ! b)) (startTime ([s, t] ! a))"]
  show ?thesis
    by (simp add: validateNoSlotOverlap_pairs)
qed

text \<open>
  C2 (as amended). For every collection of slots in which each slot has
  \<open>startTime < endTime\<close> (as JavaScript compares numbers, so neither time is NaN),
  \<open>validateNoSlotOverlap\<close> returns true exactly when no two slots
  at distinct positions have intersecting half-open intervals \<open>[startTime, endTime)\<close>; a
  slot that ends exactly when another starts does not overlap it: the slots \<open>[480,510)\<close>
  and \<open>[510,540)\<close> are accepted, \<open>[480,510)\<close> and \<open>[500,520)\<close> are rejected.
\<close>

theorem validateNoSlotOverlap_intervals:
  assumes "\<forall>s \<in> set slots. js_lt (startTime s) (endTime s)"
  shows "validateNoSlotOverlap slots =
           (\<forall>i j. i < length slots \<and> j < length slots \<and> i \<noteq> j \<longrightarrow>
              slot_interval (slots ! i) \<inter> slot_interval (slots ! j) = {}) \<and>
         validateNoSlotOverlap [mk_slot 480 510, mk_slot 510 540] = True \<and>
         validateNoSlotOverlap [mk_slot 480 510, mk_slot 500 520] = False"
proof -
  let ?ok = "\<lambda>a b. js_le (endTime (slots ! a)) (startTime (slots ! b)) \<or> js_le (endTime (slots ! b)) (startTime (slots ! a))"
  have disj: "(slot_interval (slots ! i) \<inter> slot_interval (slots ! j) = {}) = ?ok i j"
    if "i < length slots" "j < length slots" for i j
    using that assms by (intro slot_interval_disjoint_iff) simp_all
  have "validateNoSlotOverlap slots = (\<forall>a b. a < b \<and> b < length slots \<longrightarrow> ?ok a b)"
    by (rule validateNoSlotOverlap_pairs)
  also have "\<dots> = (\<forall>i j. i < length slots \<and> j < length slots \<and> i \<noteq> j \<longrightarrow> ?ok i j)"
  proof
    assume h: "\<forall>a b. a < b \<and> b < length slots \<longrightarrow> ?ok a b"
    show "\<forall>i j. i < length slots \<and> j < length slots \<and> i \<noteq> j \<longrightarrow> ?ok i j"
    proof (intro allI impI)
      fix i j assume ij: "i < length slots \<and> j < length slots \<and> i \<noteq> j"
      then consider "i < j" | "j < i" by linarith
      then show "?ok i j"
      proof cases
        case 1 with h ij show ?thesis by blast
      next
        case 2 with h ij have "?ok j i" by blast
        then show ?thesis by blast
      qed
    qed
  next
    assume "\<forall>i j. i < length slots \<and> j < length slots \<and> i \<noteq> j \<longrightarrow> ?ok i j"
    then show "\<forall>a b. a < b \<and> b < length slots \<longrightarrow> ?ok a b"
      by (metis less_trans less_irrefl)
  qed
  also have "\<dots> = (\<forall>i j. i < length slots \<and> j < length slots \<and> i \<noteq> j \<longrightarrow>
              slot_interval (slots ! i) \<inter> slot_interval (slots ! j) = {})"
    using disj by blast
  finally have main: "validateNoSlotOverlap slots =
           (\<forall>i j. i < length slots \<and> j < length slots \<and> i \<noteq> j \<longrightarrow>
              slot_interval (slots ! i) \<inter> slot_interval (slots ! j) = {})" .
  have ex1: "validateNoSlotOverlap [mk_slot 480 510, mk_slot 510 540] = True"
    by (simp add: validateNoSlotOverlap_two mk_slot_def)
  have ex2: "validateNoSlotOverlap [mk_slot 480 510, mk_slot 500 520] = False"
    by (simp add: validateNoSlotOverlap_two mk_slot_def)
  from main ex1 ex2 show ?thesis by blast
qed

theorem validateNoSlotOverlap_intervals_witness:
  "(js_lt (startTime (mk_slot 480 510)) (endTime (mk_slot 480 510)) \<and>
    js_lt (startTime (mk_slot 510 540)) (endTime (mk_slot 510 540))) \<and>
   validateNoSlotOverlap [mk_slot 480 510, mk_slot 510 540] = True \<and>
   slot_interval (mk_slot 480 510) \<inter> slot_interval (mk_slot 510 540) = {}"
proof -
  let ?slots = "[mk_slot 480 510, mk_slot 510 540]"
  have h: "\<forall>s \<in> set ?slots. js_lt (startTime s) (endTime s)"
    by (simp add: mk_slot_def)
  from validateNoSlotOverlap_intervals [OF h]
  have all: "\<forall>i j. i < length ?slots \<and> j < length ?slots \<and> i \<noteq> j \<longrightarrow>
               slot_interval (?slots ! i) \<inter> slot_interval (?slots ! j) = {}"
    and yes: "validateNoSlotOverlap ?slots = True"
    by blast+
  from all have "slot_interval (?slots ! 0) \<inter> slot_interval (?slots ! 1) = {}"
    by (intro all [rule_format]) simp
  with yes show ?thesis
    by (simp add: mk_slot_def)
qed

text \<open>
  Without the restriction to non-empty slots the equivalence fails: the slot \<open>[500,500)\<close>
  is an empty interval, which intersects nothing, yet the check rejects it next to
  \<open>[480,510)\<close>, since \<open>500 \<le> 480\<close> and \<open>510 \<le> 500\<close> are both false.
\<close>

theorem validateNoSlotOverlap_empty_slot_counterexample:
  "validateNoSlotOverlap [mk_slot 500 500, mk_slot 480 510] = False \<and>
   slot_interval (mk_slot 500 500) \<inter> slot_interval (mk_slot 480 510) = {} \<and>
   slot_interval (mk_slot 480 510) \<inter> slot_interval (mk_slot 500 500) = {}"
  by (auto simp: validateNoSlotOverlap_two slot_interval_def mk_slot_def)

text \<open>The spaced schedule is accepted whatever its length.\<close>

lemma spaced_slots_nth:
  "i < n \<Longrightarrow> spaced_slots n ! i = mk_slot (15 * of_nat i) (15 * of_nat i + 5)"
  by (simp add: spaced_slots_def)

lemma spaced_slots_accepted:
  "validateNoSlotOverlap (spaced_slots n) = True"
proof -
  have "js_le (endTime (spaced_slots n ! a)) (startTime (spaced_slots n ! b))"
    if "a < b" "b < n" for a b
  proof -
    from that have "a + 1 \<le> b" by simp
    then have "(of_nat (a + 1) :: rat) \<le> of_nat b"
      by (simp only: of_nat_le_iff)
    then have "(15 * of_nat a + 5 :: rat) \<le> 15 * of_nat b"
      by simp
    with that show ?thesis
      by (simp add: spaced_slots_nth mk_slot_def)
  qed
  moreover have "length (spaced_slots n) = n"
    by (simp add: spaced_slots_def)
  ultimately show ?thesis
    by (simp add: validateNoSlotOverlap_pairs)
qed

lemma spaced_slots_durations:
  "list_all (\<lambda>s. validateSlotDuration s five_minute_habit) (spaced_slots n)"
proof -
  have "round_double 5 = Num 5"
    using round_double_exact [OF is_double_of_int [of 5]] by simp
  then show ?thesis
    by (simp add: list_all_iff spaced_slots_def validateSlotDuration_def mk_slot_def
          five_minute_habit_def js_strict_eq_def)
qed

lemma spaced_slots_within_day:
  assumes "n \<le> 96"
  shows "list_all within_day (spaced_slots n)"
proof -
  have "within_day (mk_slot (15 * of_nat i) (15 * of_nat i + 5))" if "i < n" for i
  proof -
    from that assms have "i \<le> 95" by simp
    then have "(of_nat i :: rat) \<le> of_nat 95"
      by (simp only: of_nat_le_iff)
    then have "(15 * of_nat i + 5 :: rat) \<le> 1439"
      by simp
    moreover have "\<lfloor>15 * of_nat i :: rat\<rfloor> = 15 * int i"
    proof -
      have "(15 * of_nat i :: rat) = of_int (15 * int i)" by simp
      then show ?thesis by (simp only: floor_of_int)
    qed
    ultimately show ?thesis
      by (simp add: within_day_def mk_slot_def)
  qed
  then show ?thesis
    by (simp add: list_all_iff spaced_slots_def)
qed

text \<open>
  C7 (as amended). Overlapping slots are detected by \<open>validateNoSlotOverlap\<close>: it returns
  false, without throwing, for every collection in which the half-open intervals of two
  slots at distinct positions intersect. A schedule of more than 50 slots is not
  detected: no validator looks at the number of slots, and for every \<open>n\<close> up to 96, so
  also beyond 50, the schedule of \<open>n\<close> five-minute slots a quarter of an hour apart has
  \<open>n\<close> slots within the day, is accepted by \<open>validateNoSlotOverlap\<close>, and each of its
  slots passes \<open>validateSlotDuration\<close> against a five-minute habit.
\<close>

theorem validateNoSlotOverlap_detects_overlap_not_count:
  "(i < length slots \<and> j < length slots \<and> i \<noteq> j \<and>
    slot_interval (slots ! i) \<inter> slot_interval (slots ! j) \<noteq> {} \<longrightarrow>
      validateNoSlotOverlap slots = False) \<and>
   (n \<le> 96 \<longrightarrow>
      length (spaced_slots n) = n \<and>
      validateNoSlotOverlap (spaced_slots n) = True \<and>
      list_all (\<lambda>s. validateSlotDuration s five_minute_habit) (spaced_slots n) \<and>
      list_all within_day (spaced_slots n))"
proof -
  have detect: "validateNoSlotOverlap slots = False"
    if b: "i < length slots" "j < length slots" and ne: "i \<noteq> j"
      and meet: "slot_interval (slots ! i) \<inter> slot_interval (slots ! j) \<noteq> {}"
  proof -
    from meet obtain t where t: "t \<in> slot_interval (slots ! i)" "t \<in> slot_interval (slots ! j)"
      by blast
    have clash: "\<not> js_le (endTime (slots ! i)) (startTime (slots ! j))"
      "\<not> js_le (endTime (slots ! j)) (startTime (slots ! i))"
      using t by (simp_all add: slot_interval_meet)
    from ne consider "i < j" | "j < i" by linarith
    then have "\<exists>a b. a < b \<and> b < length slots \<and>
        \<not> (js_le (endTime (slots ! a)) (startTime (slots ! b)) \<or>
           js_le (endTime (slots ! b)) (startTime (slots ! a)))"
    proof cases
      case 1
      with b clash show ?thesis by blast
    next
      case 2
      with b clash show ?thesis by blast
    qed
    then show ?thesis
      by (simp add: validateNoSlotOverlap_pairs)
  qed
  have "length (spaced_slots n) = n"
    by (simp add: spaced_slots_def)
  with detect show ?thesis
    by (simp add: spaced_slots_accepted spaced_slots_durations spaced_slots_within_day)
qed

theorem validateNoSlotOverlap_detects_overlap_not_count_witness:
  "slot_interval (mk_slot 480 510) \<inter> slot_interval (mk_slot 500 520) \<noteq> {} \<and>
   validateNoSlotOverlap [mk_slot 480 510, mk_slot 500 520] = False \<and>
   (60::nat) \<le> 96 \<and>
   length (spaced_slots 60) = 60 \<and>
   validateNoSlotOverlap (spaced_slots 60) = True \<and>
   list_all (\<lambda>s. validateSlotDuration s five_minute_habit) (spaced_slots 60) \<and>
   list_all within_day (spaced_slots 60)"
proof -
  let ?slots = "[mk_slot 480 510, mk_slot 500 520]"
  have "500 \<in> slot_interval (mk_slot 480 510) \<inter> slot_interval (mk_slot 500 520)"
    by (simp add: slot_interval_def mk_slot_def)
  then have meet: "slot_interval (?slots ! 0) \<inter> slot_interval (?slots ! 1) \<noteq> {}"
    by auto
  have n: "(60::nat) \<le> 96" by simp
  from validateNoSlotOverlap_detects_overlap_not_count
    [where slots = ?slots and i = 0 and j = 1 and n = 60] meet n
  show ?thesis by simp
qed

text \<open>
  A schedule of 51 slots that every validator accepts: the slots \<open>[0,5)\<close>, \<open>[15,20)\<close>, ...,
  \<open>[750,755)\<close> lie within the day, start on quarter hours, do not overlap, and each agrees
  with the duration of a five-minute habit.
\<close>

theorem fifty_one_slots_counterexample:
  "length (spaced_slots 51) = 51 \<and>
   validateNoSlotOverlap (spaced_slots 51) = True \<and>
   list_all (\<lambda>s. validateSlotDuration s five_minute_habit) (spaced_slots 51) \<and>
   list_all within_day (spaced_slots 51)"
proof -
  have "length (spaced_slots 51) = 51"
    by (simp add: spaced_slots_def)
  moreover have "list_all within_day (spaced_slots 51)"
    by (rule spaced_slots_within_day) simp
  ultimately show ?thesis
    by (simp add: spaced_slots_accepted spaced_slots_durations)
qed

section \<open>Properties of the slot duration check\<close>

text \<open>On finite times the check compares the duration with the rounded difference.\<close>

lemma validateSlotDuration_finite:
  "validateSlotDuration (slot\<lparr>startTime := Num a, endTime := Num b\<rparr>) (habit\<lparr>duration := d\<rparr>) =
     (d = round_double (b - a) \<and> d \<noteq> NaN)"
  by (auto simp: validateSlotDuration_def js_strict_eq_def)

text \<open>\<open>2^53 + 1\<close> lies halfway between two doubles and rounds to the even one, \<open>2^53\<close>.\<close>

lemma round_double_safe_integer_plus_one:
  "round_double (2 ^ 53 + 1) = Num (2 ^ 53)"
  by code_simp

text \<open>
  C3 (as amended). For every slot with finite times whose difference
  \<open>endTime - startTime\<close> is a double, and every habit, \<open>validateSlotDuration\<close> returns
  true exactly when that difference equals the habit's duration, with no tolerance; this
  covers all integer times whose difference is at most \<open>2^53\<close> in magnitude, so every
  minute of the day. The slot \<open>[480,510)\<close> agrees with a duration of 30 and not with a
  duration of 25.
\<close>

theorem validateSlotDuration_exact:
  "(is_double (b - a) \<longrightarrow>
      validateSlotDuration (slot\<lparr>startTime := Num a, endTime := Num b\<rparr>) (habit\<lparr>duration := d\<rparr>) =
        (d = Num (b - a))) \<and>
   (\<bar>m - k\<bar> \<le> 2 ^ 53 \<longrightarrow>
      validateSlotDuration (slot\<lparr>startTime := Num (of_int k), endTime := Num (of_int m)\<rparr>)
          (habit\<lparr>duration := d\<rparr>) =
        (d = Num (of_int (m - k)))) \<and>
   validateSlotDuration (mk_slot 480 510) (habit\<lparr>duration := Num 30\<rparr>) = True \<and>
   validateSlotDuration (mk_slot 480 510) (habit\<lparr>duration := Num 25\<rparr>) = False"
proof -
  have exact: "validateSlotDuration (slot\<lparr>startTime := Num a, endTime := Num b\<rparr>) (habit\<lparr>duration := d\<rparr>) =
        (d = Num (b - a))" if "is_double (b - a)" for a b d slot habit
    using round_double_exact [OF that] by (auto simp: validateSlotDuration_finite)
  have ints: "validateSlotDuration (slot\<lparr>startTime := Num (of_int k), endTime := Num (of_int m)\<rparr>)
          (habit\<lparr>duration := d\<rparr>) = (d = Num (of_int (m - k)))"
    if "\<bar>m - k\<bar> \<le> 2 ^ 53" for k m :: int
  proof -
    from that have "is_double (of_int (m - k))"
      by (rule is_double_of_int)
    then have "is_double (of_int m - of_int k)"
      by simp
    from exact [OF this] show ?thesis by simp
  qed
  have thirty: "is_double (510 - 480)"
    using is_double_of_int [of 30] by simp
  have mk: "mk_slot 480 510 = mk_slot 480 510 \<lparr>startTime := Num 480, endTime := Num 510\<rparr>"
    by (simp add: mk_slot_def)
  have ex1: "validateSlotDuration (mk_slot 480 510) (habit\<lparr>duration := Num 30\<rparr>) = True"
    by (subst mk) (simp add: exact [OF thirty])
  have ex2: "validateSlotDuration (mk_slot 480 510) (habit\<lparr>duration := Num 25\<rparr>) = False"
    by (subst mk) (simp add: exact [OF thirty])
  from exact ints ex1 ex2 show ?thesis by blast
qed

theorem validateSlotDuration_exact_witness:
  "is_double (510 - 480) \<and> \<bar>1439 - 1425 :: int\<bar> \<le> 2 ^ 53 \<and>
   validateSlotDuration (mk_slot 480 510) (five_minute_habit\<lparr>duration := Num 30\<rparr>) = True \<and>
   validateSlotDuration (mk_slot 1425 1439) (five_minute_habit\<lparr>duration := Num 14\<rparr>) = True \<and>
   validateSlotDuration (mk_slot 1425 1439) (five_minute_habit\<lparr>duration := Num 15\<rparr>) = False"
proof -
  have d: "is_double (510 - 480)"
    using is_double_of_int [of 30] by simp
  have i: "\<bar>1439 - 1425 :: int\<bar> \<le> 2 ^ 53"
    by simp
  have s1: "mk_slot 480 510 = mk_slot 480 510 \<lparr>startTime := Num 480, endTime := Num 510\<rparr>"
    by (simp add: mk_slot_def)
  have s2: "mk_slot 1425 1439 =
      mk_slot 1425 1439 \<lparr>startTime := Num (of_int 1425), endTime := Num (of_int 1439)\<rparr>"
    by (simp add: mk_slot_def)
  from validateSlotDuration_exact [where b = 510 and a = 480 and slot = "mk_slot 480 510"
      and habit = five_minute_habit and d = "Num 30" and m = 1439 and k = 1425]
    d s1
  have a: "validateSlotDuration (mk_slot 480 510) (five_minute_habit\<lparr>duration := Num 30\<rparr>) = True"
    by simp
  from validateSlotDuration_exact [where b = 510 and a = 480 and slot = "mk_slot 1425 1439"
      and habit = five_minute_habit and d = "Num 14" and m = 1439 and k = 1425]
    i s2
  have b: "validateSlotDuration (mk_slot 1425 1439) (five_minute_habit\<lparr>duration := Num 14\<rparr>) = True"
    by simp
  from validateSlotDuration_exact [where b = 510 and a = 480 and slot = "mk_slot 1425 1439"
      and habit = five_minute_habit and d = "Num 15" and m = 1439 and k = 1425]
    i s2
  have c: "validateSlotDuration (mk_slot 1425 1439) (five_minute_habit\<lparr>duration := Num 15\<rparr>) = False"
    by simp
  from d i a b c show ?thesis by blast
qed

text \<open>
  When the difference is not a double the subtraction rounds it: from \<open>-1\<close> to \<open>2^53\<close>
  the difference is \<open>2^53 + 1\<close>, which rounds to \<open>2^53\<close>, so the slot is accepted for a
  duration of \<open>2^53\<close> although its span is one more.
\<close>

theorem validateSlotDuration_rounding_counterexample:
  "is_double (- 1) \<and> is_double (2 ^ 53) \<and>
   validateSlotDuration (mk_slot (- 1) (2 ^ 53)) (five_minute_habit\<lparr>duration := Num (2 ^ 53)\<rparr>) = True \<and>
   (2 ^ 53 - (- 1) :: rat) \<noteq> 2 ^ 53"
proof -
  have "is_double (- 1)"
    using is_double_of_int [of "- 1"] by simp
  moreover have "is_double (2 ^ 53)"
    using is_double_of_int [of "2 ^ 53"] by simp
  moreover have "validateSlotDuration (mk_slot (- 1) (2 ^ 53))
      (five_minute_habit\<lparr>duration := Num (2 ^ 53)\<rparr>) = True"
    using round_double_safe_integer_plus_one
    by (simp add: validateSlotDuration_def mk_slot_def js_strict_eq_def)
  ultimately show ?thesis by simp
qed

section \<open>Properties of time-window normalisation\<close>

text \<open>Facts about the insertion-ordered set.\<close>

lemma set_foldl_Set_add: "set (foldl Set_add acc xs) = set acc \<union> set xs"
  by (induction xs arbitrary: acc) (auto simp: Set_add_def)

lemma distinct_foldl_Set_add: "distinct acc \<Longrightarrow> distinct (foldl Set_add acc xs)"
  by (induction xs arbitrary: acc) (auto simp: Set_add_def)

lemma foldl_Set_add_distinct: "distinct (acc @ xs) \<Longrightarrow> foldl Set_add acc xs = acc @ xs"
  by (induction xs arbitrary: acc) (auto simp: Set_add_def)

lemma set_new_Set: "set (new_Set xs) = set xs"
  by (simp add: new_Set_def set_foldl_Set_add)

lemma distinct_new_Set: "distinct (new_Set xs)"
  by (simp add: new_Set_def distinct_foldl_Set_add)

lemma new_Set_distinct: "distinct xs \<Longrightarrow> new_Set xs = xs"
  using foldl_Set_add_distinct [of "[]" xs] by (simp add: new_Set_def)

lemma new_Set_snoc: "new_Set (xs @ [x]) = Set_add (new_Set xs) x"
  by (simp add: new_Set_def)

lemma new_Set_first_occurrences: "new_Set xs = rev (remdups (rev xs))"
proof (induction xs rule: rev_induct)
  case Nil
  show ?case by (simp add: new_Set_def)
next
  case (snoc x xs)
  have "new_Set (xs @ [x]) = Set_add (new_Set xs) x"
    by (rule new_Set_snoc)
  also have "\<dots> = (if x \<in> set xs then new_Set xs else new_Set xs @ [x])"
    by (simp add: Set_add_def set_new_Set)
  also have "\<dots> = rev (remdups (rev (xs @ [x])))"
    using snoc.IH by simp
  finally show ?case .
qed

lemma validateTimeWindow_cases:
  "validateTimeWindow w = (if w = [] \<or> ANY \<in> set w then [ANY] else new_Set w)"
  by (simp add: validateTimeWindow_def Array_from_def array_includes_def
        set_new_Set Let_def)

text \<open>
  C5. Normalising twice is the same as normalising once: for every list \<open>w\<close> of windows,
  \<open>validateTimeWindow (validateTimeWindow w)\<close> is the array \<open>validateTimeWindow w\<close>.
\<close>

theorem validateTimeWindow_idempotent:
  "validateTimeWindow (validateTimeWindow w) = validateTimeWindow w"
proof (cases "w = [] \<or> ANY \<in> set w")
  case True
  then have "validateTimeWindow w = [ANY]"
    by (simp add: validateTimeWindow_cases)
  then show ?thesis
    by (simp add: validateTimeWindow_cases)
next
  case False
  then have eq: "validateTimeWindow w = new_Set w"
    by (simp add: validateTimeWindow_cases)
  from False have "new_Set w \<noteq> []" "ANY \<notin> set (new_Set w)"
    using set_new_Set [of w] by auto
  then have "validateTimeWindow (new_Set w) = new_Set (new_Set w)"
    by (simp add: validateTimeWindow_cases)
  also have "\<dots> = new_Set w"
    by (simp add: new_Set_distinct distinct_new_Set)
  finally show ?thesis
    using eq by simp
qed

text \<open>
  C4 (as amended). For every list of preferred windows, \<open>validateTimeWindow\<close> returns an
  array without duplicates whose set of elements is determined by the set of the input's
  windows: the empty input yields exactly \<open>[ANY]\<close>; an input containing \<open>ANY\<close> yields
  exactly \<open>[ANY]\<close>; any other input yields its windows in order of first occurrence. Two
  inputs with the same windows, in particular two permutations of one list, yield arrays
  with the same set of elements; the order within the array follows the input.
\<close>

theorem validateTimeWindow_canonical:
  "distinct (validateTimeWindow w) \<and>
   set (validateTimeWindow w) = (if w = [] \<or> ANY \<in> set w then {ANY} else set w) \<and>
   validateTimeWindow [] = [ANY] \<and>
   (ANY \<in> set w \<longrightarrow> validateTimeWindow w = [ANY]) \<and>
   (w \<noteq> [] \<and> ANY \<notin> set w \<longrightarrow> validateTimeWindow w = rev (remdups (rev w))) \<and>
   (set w = set w' \<longrightarrow> set (validateTimeWindow w) = set (validateTimeWindow w'))"
proof -
  have s: "set (validateTimeWindow v) = (if v = [] \<or> ANY \<in> set v then {ANY} else set v)" for v
    by (simp add: validateTimeWindow_cases set_new_Set)
  have "set w = set w' \<longrightarrow> set (validateTimeWindow w) = set (validateTimeWindow w')"
  proof
    assume e: "set w = set w'"
    then have "(w = []) = (w' = [])" by (metis set_empty)
    with e show "set (validateTimeWindow w) = set (validateTimeWindow w')"
      by (simp add: s)
  qed
  moreover have "distinct (validateTimeWindow w)"
    by (simp add: validateTimeWindow_cases distinct_new_Set)
  moreover have "w \<noteq> [] \<and> ANY \<notin> set w \<longrightarrow> validateTimeWindow w = rev (remdups (rev w))"
    by (simp add: validateTimeWindow_cases new_Set_first_occurrences)
  ultimately show ?thesis
    using s [of w] by (simp add: validateTimeWindow_cases)
qed

theorem validateTimeWindow_canonical_witness:
  "validateTimeWindow [MORNING, ANY] = [ANY] \<and>
   set (validateTimeWindow [MORNING, ANY]) = set (validateTimeWindow [ANY, MORNING]) \<and>
   validateTimeWindow [MORNING, EVENING, MORNING] = [MORNING, EVENING] \<and>
   set (validateTimeWindow [MORNING, EVENING, MORNING]) = set (validateTimeWindow [EVENING, MORNING])"
  using validateTimeWindow_canonical [of "[MORNING, ANY]" "[ANY, MORNING]"]
        validateTimeWindow_canonical [of "[MORNING, EVENING, MORNING]" "[EVENING, MORNING]"]
  by auto

text \<open>
  The returned array is not independent of the input's order: \<open>[MORNING, EVENING]\<close> and
  \<open>[EVENING, MORNING]\<close> are permutations of each other and each is returned as it is.
\<close>

theorem validateTimeWindow_order_counterexample:
  "mset [MORNING, EVENING] = mset [EVENING, MORNING] \<and>
   validateTimeWindow [MORNING, EVENING] = [MORNING, EVENING] \<and>
   validateTimeWindow [EVENING, MORNING] = [EVENING, MORNING] \<and>
   validateTimeWindow [MORNING, EVENING] \<noteq> validateTimeWindow [EVENING, MORNING]"
  by (simp add: validateTimeWindow_cases new_Set_distinct)


section \<open>Properties of the type guards\<close>

text \<open>A number between 0 and \<open>n\<close> that \<open>Number.isInteger\<close> accepts is one of the integers \<open>0..n\<close>.\<close>

lemma int_range_rat:
  "(0 \<le> r \<and> r \<le> of_int n \<and> of_int \<lfloor>r\<rfloor> = r) = (\<exists>k::int. 0 \<le> k \<and> k \<le> n \<and> r = of_int k)"
  for r :: rat
proof
  assume h: "0 \<le> r \<and> r \<le> of_int n \<and> of_int \<lfloor>r\<rfloor> = r"
  define k where "k = \<lfloor>r\<rfloor>"
  from h have r: "r = of_int k"
    unfolding k_def by (elim conjE) (rule sym)
  from h have "(0::rat) \<le> of_int k" "(of_int k :: rat) \<le> of_int n"
    unfolding r by blast+
  then have "0 \<le> k" "k \<le> n"
    by (simp_all only: of_int_0_le_iff of_int_le_iff)
  with r show "\<exists>k::int. 0 \<le> k \<and> k \<le> n \<and> r = of_int k"
    by blast
next
  assume "\<exists>k::int. 0 \<le> k \<and> k \<le> n \<and> r = of_int k"
  then show "0 \<le> r \<and> r \<le> of_int n \<and> of_int \<lfloor>r\<rfloor> = r"
    by auto
qed

lemma isQualityRating_iff:
  "isQualityRating v = (\<exists>k::int. 0 \<le> k \<and> k \<le> 3 \<and> v = Num (of_int k))"
  using int_range_rat [of _ 3]
  by (cases v) (simp_all add: isQualityRating_def js_ge_def)

lemma isDayOfWeek_iff:
  "isDayOfWeek v = (\<exists>k::int. 0 \<le> k \<and> k \<le> 6 \<and> v = Num (of_int k))"
  using int_range_rat [of _ 6]
  by (cases v) (simp_all add: isDayOfWeek_def js_ge_def)

lemma range_TimeWindow_value: "range TimeWindow_value = set TimeWindow_values"
proof -
  have "UNIV = {EARLY_MORNING, MORNING, AFTERNOON, EVENING, NIGHT, ANY}"
    using TimeWindow.exhaust by blast
  then have "range TimeWindow_value =
      TimeWindow_value ` {EARLY_MORNING, MORNING, AFTERNOON, EVENING, NIGHT, ANY}"
    by simp
  then show ?thesis
    by (simp add: TimeWindow_values_def)
qed

lemma range_NotificationChannel_value: "range NotificationChannel_value = set NotificationChannel_values"
proof -
  have "UNIV = {EMAIL, PUSH, IN_APP}"
    using NotificationChannel.exhaust by blast
  then have "range NotificationChannel_value = NotificationChannel_value ` {EMAIL, PUSH, IN_APP}"
    by simp
  then show ?thesis
    by (simp add: NotificationChannel_values_def)
qed

lemma range_IntegrationMethod_value: "range IntegrationMethod_value = {''Euler'', ''RK4''}"
proof -
  have "UNIV = {EULER, RK4}"
    using IntegrationMethod.exhaust by blast
  then have "range IntegrationMethod_value = IntegrationMethod_value ` {EULER, RK4}"
    by simp
  then show ?thesis
    by simp
qed

lemma num_int_range:
  "(\<exists>k::int. 0 \<le> k \<and> k \<le> n \<and> v = Num (of_int k)) = (v \<in> (\<lambda>k. Num (of_int k)) ` {0..n})"
  by auto

lemma isQualityRating_range: "isQualityRating v = (v \<in> range QualityRating_value)"
proof -
  have "UNIV = {FAIL, HARD, GOOD, EASY}"
    using QualityRating.exhaust by blast
  then have "range QualityRating_value = QualityRating_value ` {FAIL, HARD, GOOD, EASY}"
    by simp
  then have r: "range QualityRating_value = {Num 0, Num 1, Num 2, Num 3}"
    by simp
  have "{0..3::int} = {0, 1, 2, 3}"
    by auto
  then have "(\<lambda>k. Num (of_int k)) ` {0..3::int} = {Num 0, Num 1, Num 2, Num 3}"
    by simp
  with r show ?thesis
    by (simp only: isQualityRating_iff num_int_range)
qed

lemma isDayOfWeek_range: "isDayOfWeek v = (v \<in> range DayOfWeek_value)"
proof -
  have "UNIV = {SUNDAY, MONDAY, TUESDAY, WEDNESDAY, THURSDAY, FRIDAY, SATURDAY}"
    using DayOfWeek.exhaust by blast
  then have "range DayOfWeek_value =
      DayOfWeek_value ` {SUNDAY, MONDAY, TUESDAY, WEDNESDAY, THURSDAY, FRIDAY, SATURDAY}"
    by simp
  then have r: "range DayOfWeek_value = {Num 0, Num 1, Num 2, Num 3, Num 4, Num 5, Num 6}"
    by simp
  have "{0..6::int} = {0, 1, 2, 3, 4, 5, 6}"
    by auto
  then have "(\<lambda>k. Num (of_int k)) ` {0..6::int} = {Num 0, Num 1, Num 2, Num 3, Num 4, Num 5, Num 6}"
    by simp
  with r show ?thesis
    by (simp only: isDayOfWeek_iff num_int_range)
qed

text \<open>
  C6. Each membership predicate is a total boolean function that accepts exactly the
  members of its enumeration: \<open>isQualityRating v\<close> holds exactly for the integers from 0
  to 3 (so 7 is rejected, as are NaN, the infinities and fractions), \<open>isDayOfWeek v\<close>
  exactly for the integers from 0 to 6, and \<open>isTimeWindow\<close>, \<open>isIntegrationMethod\<close> and
  \<open>isNotificationChannel\<close> exactly for the strings of their vocabularies.
\<close>

theorem type_guards_membership:
  "isQualityRating v = (\<exists>k::int. 0 \<le> k \<and> k \<le> 3 \<and> v = Num (of_int k)) \<and>
   isQualityRating v = (v \<in> range QualityRating_value) \<and>
   isQualityRating (Num 7) = False \<and>
   isDayOfWeek v = (\<exists>k::int. 0 \<le> k \<and> k \<le> 6 \<and> v = Num (of_int k)) \<and>
   isDayOfWeek v = (v \<in> range DayOfWeek_value) \<and>
   isTimeWindow s = (s \<in> range TimeWindow_value) \<and>
   isIntegrationMethod s = (s \<in> range IntegrationMethod_value) \<and>
   isNotificationChannel s = (s \<in> range NotificationChannel_value)"
proof -
  have "isQualityRating (Num 7) = False"
    by (simp add: isQualityRating_def)
  moreover have "isTimeWindow s = (s \<in> range TimeWindow_value)"
    by (simp only: isTimeWindow_def array_includes_def List.member_iff range_TimeWindow_value)
  moreover have "isIntegrationMethod s = (s \<in> range IntegrationMethod_value)"
    by (simp only: range_IntegrationMethod_value isIntegrationMethod_def) simp
  moreover have "isNotificationChannel s = (s \<in> range NotificationChannel_value)"
    by (simp only: isNotificationChannel_def array_includes_def List.member_iff
          range_NotificationChannel_value)
  moreover note isQualityRating_iff [of v] isQualityRating_range [of v]
    isDayOfWeek_iff [of v] isDayOfWeek_range [of v]
  ultimately show ?thesis
    by blast
qed

section \<open>Properties of the user preferences\<close>

text \<open>
  C8. The default table has exactly the documented values: the day runs from \<open>06:00\<close> to
  \<open>23:00\<close> in steps of 15 minutes; the cold-start threshold and the recent window are 7
  days and the risk threshold is 0.8; SM-2 is enabled with intervals between 1 and 90 days;
  the simulation is disabled, with Euler integration and a time step of 0.05 seconds;
  intervention alerts are enabled with threshold 0.8 on the in-app channel only.
\<close>

theorem DEFAULT_USER_PREFERENCES_values:
  "dailyStartTime (scheduling DEFAULT_USER_PREFERENCES) = ''06:00'' \<and>
   dailyEndTime (scheduling DEFAULT_USER_PREFERENCES) = ''23:00'' \<and>
   timeSlotGranularity (scheduling DEFAULT_USER_PREFERENCES) = Num 15 \<and>
   coldStartThreshold (prediction DEFAULT_USER_PREFERENCES) = Num 7 \<and>
   recentWindowSize (prediction DEFAULT_USER_PREFERENCES) = Num 7 \<and>
   riskThreshold (prediction DEFAULT_USER_PREFERENCES) = Num 0.8 \<and>
   enableSM2 (adaptiveFrequency DEFAULT_USER_PREFERENCES) = True \<and>
   minInterval (adaptiveFrequency DEFAULT_USER_PREFERENCES) = Num 1 \<and>
   maxInterval (adaptiveFrequency DEFAULT_USER_PREFERENCES) = Num 90 \<and>
   enabled (simulation DEFAULT_USER_PREFERENCES) = False \<and>
   integrationMethod (simulation DEFAULT_USER_PREFERENCES) = EULER \<and>
   IntegrationMethod_value (integrationMethod (simulation DEFAULT_USER_PREFERENCES)) = ''Euler'' \<and>
   timeStep (simulation DEFAULT_USER_PREFERENCES) = Num 0.05 \<and>
   enableInterventionAlerts (notifications DEFAULT_USER_PREFERENCES) = True \<and>
   alertThreshold (notifications DEFAULT_USER_PREFERENCES) = Num 0.8 \<and>
   channels (notifications DEFAULT_USER_PREFERENCES) = [IN_APP] \<and>
   map NotificationChannel_value (channels (notifications DEFAULT_USER_PREFERENCES)) = [''in-app'']"
  by (simp add: DEFAULT_USER_PREFERENCES_def)

end
